theory Spec2Isabelle
  imports Main
begin

section \<open>JavaScript values and objects\<close>

text \<open>
  The script \<^verbatim>\<open>Scripts/myscripts.js\<close> holds a demo view-model (\<^verbatim>\<open>BetterListModel\<close>)
  and the \<^verbatim>\<open>selectable\<close> extension of Knockout's \<^verbatim>\<open>observableArray\<close>.

  Array items are JavaScript values. Primitives are compared by value and objects by
  reference, so an object is an address into a heap of objects. Numbers (IEEE doubles,
  with \<^verbatim>\<open>NaN !== NaN\<close>) and function values are outside this model; on the values
  that remain, \<^verbatim>\<open>===\<close> is equality of the terms below.
\<close>

datatype prim = PUndefined | PNull | PBool bool | PStr string

datatype jsval = Prim prim | Obj nat

text \<open>
  An object has its own properties, in insertion order, and may carry the
  \<^verbatim>\<open>__ko_mapping__\<close> marker of the mapping plugin. Property values are primitives:
  \<^verbatim>\<open>ko.toJS\<close> copies an object graph recursively, and on an object without nested
  objects that is a copy of its property list (an observable property is read as its
  current value).
\<close>

record jsobj =
  mapped :: bool
  props :: "(string \<times> prim) list"

text \<open>JavaScript's \<^verbatim>\<open>ToBoolean\<close>, as used by \<^verbatim>\<open>||\<close> and \<^verbatim>\<open>if\<close>.\<close>

fun truthy_prim :: "prim \<Rightarrow> bool" where
  "truthy_prim PUndefined = False"
| "truthy_prim PNull = False"
| "truthy_prim (PBool b) = b"
| "truthy_prim (PStr s) = (s \<noteq> [])"

fun truthy :: "jsval \<Rightarrow> bool" where
  "truthy (Prim p) = truthy_prim p"
| "truthy (Obj r) = True"

text \<open>\<^verbatim>\<open>ToString\<close> of a primitive, as \<^verbatim>\<open>+=\<close> with a string operand applies it.\<close>

fun to_string :: "prim \<Rightarrow> string" where
  "to_string PUndefined = ''undefined''"
| "to_string PNull = ''null''"
| "to_string (PBool b) = (if b then ''true'' else ''false'')"
| "to_string (PStr s) = s"

datatype error = TypeError

section \<open>The array operations of Knockout that the script calls\<close>

text \<open>
  \<^verbatim>\<open>observableArray.indexOf\<close> is \<^verbatim>\<open>ko.utils.arrayIndexOf\<close>: the position of the first
  element strictly equal to the item, or \<^verbatim>\<open>-1\<close>.
\<close>

fun arrayIndexOf :: "'a list \<Rightarrow> 'a \<Rightarrow> int" where
  "arrayIndexOf [] item = - 1"
| "arrayIndexOf (y # ys) item =
     (if y = item then 0
      else (let i = arrayIndexOf ys item in if i < 0 then - 1 else i + 1))"

text \<open>
  \<^verbatim>\<open>observableArray.remove(value)\<close> walks the underlying array and splices out every
  element that satisfies the predicate \<^verbatim>\<open>value === valueOrPredicate\<close>;
  \<^verbatim>\<open>removeAll(arrayOfValues)\<close> is \<^verbatim>\<open>remove\<close> with the predicate
  \<^verbatim>\<open>ko.utils.arrayIndexOf(arrayOfValues, value) >= 0\<close>.
\<close>

fun remove_where :: "('a \<Rightarrow> bool) \<Rightarrow> 'a list \<Rightarrow> 'a list" where
  "remove_where predicate [] = []"
| "remove_where predicate (v # vs) =
     (if predicate v then remove_where predicate vs else v # remove_where predicate vs)"

definition remove_ko :: "'a \<Rightarrow> 'a list \<Rightarrow> 'a list" where
  "remove_ko valueOrPredicate underlyingArray =
     remove_where (\<lambda>v. v = valueOrPredicate) underlyingArray"

definition removeAll_ko :: "'a list \<Rightarrow> 'a list \<Rightarrow> 'a list" where
  "removeAll_ko arrayOfValues underlyingArray =
     remove_where (\<lambda>v. arrayIndexOf arrayOfValues v \<ge> 0) underlyingArray"

text \<open>
  Reading \<^verbatim>\<open>array[i]\<close>: the element when the index is in range, \<^verbatim>\<open>undefined\<close>
  otherwise. Indexes are integers.
\<close>

definition at_index :: "jsval list \<Rightarrow> int \<Rightarrow> jsval" where
  "at_index xs i = (if 0 \<le> i \<and> i < int (length xs) then xs ! nat i else Prim PUndefined)"

section \<open>BetterListModel\<close>

text \<open>
  The demo view-model: a text box (\<^verbatim>\<open>itemToAdd\<close>), the list of all items and the list
  of the items selected in the list box. All three hold strings.
\<close>

record BetterListModel =
  itemToAdd :: string
  allItems :: "string list"
  selectedItems_blm :: "string list"

definition BetterListModel_init :: BetterListModel where
  "BetterListModel_init =
     \<lparr>itemToAdd = '''',
      allItems = [''Fries'', ''Eggs Benedict'', ''Ham'', ''Cheese''],
      selectedItems_blm = [''Ham'']\<rparr>"

definition addItem :: "BetterListModel \<Rightarrow> BetterListModel" where
  "addItem this =
     (let this1 =
        (if itemToAdd this \<noteq> '''' \<and> arrayIndexOf (allItems this) (itemToAdd this) < 0
         then this\<lparr>allItems := allItems this @ [itemToAdd this]\<rparr>
         else this)
      in this1\<lparr>itemToAdd := ''''\<rparr>)"

definition removeSelected :: "BetterListModel \<Rightarrow> BetterListModel" where
  "removeSelected this =
     (let this1 = this\<lparr>allItems := removeAll_ko (selectedItems_blm this) (allItems this)\<rparr>
      in this1\<lparr>selectedItems_blm := []\<rparr>)"

section \<open>The selectable extension: state\<close>

text \<open>
  \<^verbatim>\<open>ko.observableArray.fn.selectable\<close> extends the array it is called on (\<^verbatim>\<open>this\<close>).
  The state of an extended array is the heap of objects, the underlying array
  (\<^verbatim>\<open>this()\<close>), the two cells that the extension keeps in closures (the observable
  \<^verbatim>\<open>selected\<close> of single selection, the observable array \<^verbatim>\<open>selectedItems\<close> of
  multiple selection) and the members that the extension has assigned on the array. A
  cell whose members are not defined is never read.
\<close>

datatype member = Computed_read_write | Alias_of string | Method

record sarray =
  heap :: "jsobj list"
  items :: "jsval list"
  selected :: jsval
  selectedItems :: "jsval list"
  members :: "(string \<times> member) list"

text \<open>An operation either returns (the methods return \<^verbatim>\<open>this\<close>) or throws.\<close>

datatype completion = Returns_this | Throws error

text \<open>
  A user-supplied \<^verbatim>\<open>create\<close> method, when the array has one: it receives the data and
  the array, and returns the created item and the array as it left it.
\<close>

type_synonym creator = "jsval \<Rightarrow> sarray \<Rightarrow> jsval \<times> sarray"

definition observableArray :: "jsobj list \<Rightarrow> jsval list \<Rightarrow> sarray" where
  "observableArray h initialValues =
     \<lparr>heap = h, items = initialValues, selected = Prim PUndefined, selectedItems = [],
      members = []\<rparr>"

text \<open>\<^verbatim>\<open>this.name\<close> is defined (and, being a function, truthy).\<close>

definition has :: "string \<Rightarrow> sarray \<Rightarrow> bool" where
  "has name this = (map_of (members this) name \<noteq> None)"

text \<open>\<^verbatim>\<open>this.name = ...\<close>: a later assignment hides an earlier one.\<close>

definition assign_member :: "string \<Rightarrow> member \<Rightarrow> sarray \<Rightarrow> sarray" where
  "assign_member name m this = this\<lparr>members := (name, m) # members this\<rparr>"

subsection \<open>Objects on the heap\<close>

definition deref :: "jsobj list \<Rightarrow> nat \<Rightarrow> jsobj" where
  "deref h r = (if r < length h then h ! r else \<lparr>mapped = False, props = []\<rparr>)"

definition alloc :: "jsobj \<Rightarrow> sarray \<Rightarrow> jsval \<times> sarray" where
  "alloc obj this = (Obj (length (heap this)), this\<lparr>heap := heap this @ [obj]\<rparr>)"

text \<open>\<^verbatim>\<open>object.name\<close> on a value other than \<^verbatim>\<open>null\<close> and \<^verbatim>\<open>undefined\<close>.\<close>

fun get_prop :: "sarray \<Rightarrow> jsval \<Rightarrow> string \<Rightarrow> prim" where
  "get_prop this (Prim p) name = PUndefined"
| "get_prop this (Obj r) name =
     (case map_of (props (deref (heap this) r)) name of None \<Rightarrow> PUndefined | Some v \<Rightarrow> v)"

fun assign_prop :: "string \<Rightarrow> prim \<Rightarrow> (string \<times> prim) list \<Rightarrow> (string \<times> prim) list" where
  "assign_prop name v [] = [(name, v)]"
| "assign_prop name v ((k, w) # ps) =
     (if k = name then (k, v) # ps else (k, w) # assign_prop name v ps)"

fun set_prop :: "jsval \<Rightarrow> string \<Rightarrow> prim \<Rightarrow> sarray \<Rightarrow> sarray" where
  "set_prop (Prim p) name v this = this"
| "set_prop (Obj r) name v this =
     (if r < length (heap this)
      then this\<lparr>heap := (heap this)[r := (heap this ! r)\<lparr>props := assign_prop name v (props (heap this ! r))\<rparr>]\<rparr>
      else this)"

text \<open>\<^verbatim>\<open>object.__ko_mapping__\<close> is truthy.\<close>

fun has_mapping :: "sarray \<Rightarrow> jsval \<Rightarrow> bool" where
  "has_mapping this (Prim p) = False"
| "has_mapping this (Obj r) = mapped (deref (heap this) r)"

text \<open>
  \<^verbatim>\<open>ko.toJS\<close> and \<^verbatim>\<open>ko.mapping.toJS\<close> return a primitive as it is and a plain copy of
  an object; \<^verbatim>\<open>ko.mapping.fromJS(data, mapping)\<close> builds a new mapped object from the
  data.
\<close>

fun toJS :: "jsval \<Rightarrow> sarray \<Rightarrow> jsval \<times> sarray" where
  "toJS (Prim p) this = (Prim p, this)"
| "toJS (Obj r) this = alloc \<lparr>mapped = False, props = props (deref (heap this) r)\<rparr> this"

fun mapping_toJS :: "jsval \<Rightarrow> sarray \<Rightarrow> jsval \<times> sarray" where
  "mapping_toJS (Prim p) this = (Prim p, this)"
| "mapping_toJS (Obj r) this = alloc \<lparr>mapped = False, props = props (deref (heap this) r)\<rparr> this"

fun mapping_fromJS :: "jsval \<Rightarrow> sarray \<Rightarrow> jsval \<times> sarray" where
  "mapping_fromJS (Prim p) this = (Prim p, this)"
| "mapping_fromJS (Obj r) this = alloc \<lparr>mapped = True, props = props (deref (heap this) r)\<rparr> this"

definition push :: "jsval \<Rightarrow> sarray \<Rightarrow> sarray" where
  "push v this = this\<lparr>items := items this @ [v]\<rparr>"

section \<open>The selectable extension: attributes\<close>

subsection \<open>Single selection (lines 121 to 143)\<close>

definition read_selectedItem :: "sarray \<Rightarrow> error + jsval" where
  "read_selectedItem this =
     (if has ''selectedItem'' this then Inr (selected this) else Inl TypeError)"

definition write_selectedItem :: "jsval \<Rightarrow> sarray \<Rightarrow> completion \<times> sarray" where
  "write_selectedItem object this =
     (if \<not> has ''selectedItem'' this then (Throws TypeError, this)
      else if arrayIndexOf (items this) object < 0
        then (Returns_this, this\<lparr>selected := Prim PNull\<rparr>)
        else (Returns_this, this\<lparr>selected := object\<rparr>))"

definition read_selectedIndex :: "sarray \<Rightarrow> error + int" where
  "read_selectedIndex this =
     (if has ''selectedIndex'' this then Inr (arrayIndexOf (items this) (selected this))
      else Inl TypeError)"

definition write_selectedIndex :: "int \<Rightarrow> sarray \<Rightarrow> completion \<times> sarray" where
  "write_selectedIndex index this =
     (if \<not> has ''selectedIndex'' this then (Throws TypeError, this)
      else write_selectedItem (at_index (items this) index) this)"

subsection \<open>Multiple selection (lines 86 to 116)\<close>

definition read_selectedItems :: "sarray \<Rightarrow> error + jsval list" where
  "read_selectedItems this =
     (if has ''selectedItems'' this then Inr (selectedItems this) else Inl TypeError)"

text \<open>
  The body of the \<^verbatim>\<open>arrayForEach\<close> of the write function: \<^verbatim>\<open>acc\<close> is the underlying
  array of the cell, emptied before the loop.
\<close>

definition select_step :: "jsval list \<Rightarrow> jsval \<Rightarrow> jsval list \<Rightarrow> jsval list" where
  "select_step array obj acc =
     (if arrayIndexOf acc obj = - 1 \<and> arrayIndexOf array obj \<ge> 0 then acc @ [obj] else acc)"

definition write_selectedItems :: "jsval list \<Rightarrow> sarray \<Rightarrow> completion \<times> sarray" where
  "write_selectedItems written this =
     (if \<not> has ''selectedItems'' this then (Throws TypeError, this)
      else (Returns_this,
            this\<lparr>selectedItems := fold (select_step (items this)) written []\<rparr>))"

definition read_selectedIndexes :: "sarray \<Rightarrow> error + int list" where
  "read_selectedIndexes this =
     (if has ''selectedIndexes'' this
      then (case read_selectedItems this of
              Inl e \<Rightarrow> Inl e
            | Inr sel \<Rightarrow> Inr (map (arrayIndexOf (items this)) sel))
      else Inl TypeError)"

definition write_selectedIndexes :: "int list \<Rightarrow> sarray \<Rightarrow> completion \<times> sarray" where
  "write_selectedIndexes indexes this =
     (if \<not> has ''selectedIndexes'' this then (Throws TypeError, this)
      else write_selectedItems (map (at_index (items this)) indexes) this)"

section \<open>The selectable extension: binding tools (lines 153 to 243)\<close>

text \<open>
  The helper \<^verbatim>\<open>clone\<close> of lines 155 to 178. Reading \<^verbatim>\<open>__ko_mapping__\<close> of
  \<^verbatim>\<open>null\<close> or \<^verbatim>\<open>undefined\<close> throws before anything is changed.
\<close>

definition clone :: "creator option \<Rightarrow> jsval \<Rightarrow> sarray \<Rightarrow> error + (jsval \<times> sarray)" where
  "clone create object this =
     (if object = Prim PUndefined \<or> object = Prim PNull then Inl TypeError
      else
        (let (data, this1) =
               (if has_mapping this object then mapping_toJS object this else toJS object this);
             this2 =
               (if truthy_prim (get_prop this1 data ''name'')
                then set_prop data ''name''
                       (PStr (to_string (get_prop this1 data ''name'') @ '' copy'')) this1
                else this1)
         in (case create of
               Some f \<Rightarrow> Inr (f data this2)
             | None \<Rightarrow>
                 (let (created, this3) =
                        (if has_mapping this object then mapping_fromJS data this2
                         else (data, this2))
                  in Inr (created, push created this3)))))"

text \<open>\<^verbatim>\<open>ko.utils.arrayMap(array, clone)\<close>: it stops at the first call that throws.\<close>

fun clone_each :: "creator option \<Rightarrow> jsval list \<Rightarrow> sarray \<Rightarrow> (error + jsval list) \<times> sarray" where
  "clone_each create [] this = (Inr [], this)"
| "clone_each create (x # xs) this =
     (case clone create x this of
        Inl e \<Rightarrow> (Inl e, this)
      | Inr (c, this1) \<Rightarrow>
          (case clone_each create xs this1 of
             (Inl e, this2) \<Rightarrow> (Inl e, this2)
           | (Inr cs, this2) \<Rightarrow> (Inr (c # cs), this2)))"

text \<open>\<^verbatim>\<open>this.clone\<close>, lines 182 to 195.\<close>

definition this_clone :: "creator option \<Rightarrow> jsval \<Rightarrow> sarray \<Rightarrow> completion \<times> sarray" where
  "this_clone create object this =
     (if \<not> has ''clone'' this then (Throws TypeError, this)
      else if has ''selectedItem'' this then
        (case clone create (if truthy object then object else selected this) this of
           Inl e \<Rightarrow> (Throws e, this)
         | Inr (created, this1) \<Rightarrow> write_selectedItem created this1)
      else if truthy object then
        (case clone create object this of
           Inl e \<Rightarrow> (Throws e, this)
         | Inr (created, this1) \<Rightarrow> write_selectedItems [created] this1)
      else
        (case read_selectedItems this of
           Inl e \<Rightarrow> (Throws e, this)
         | Inr sel \<Rightarrow>
             (case clone_each create sel this of
                (Inl e, this1) \<Rightarrow> (Throws e, this1)
              | (Inr cs, this1) \<Rightarrow> write_selectedItems cs this1)))"

text \<open>
  \<^verbatim>\<open>this.selectedItems\<close> is a \<^verbatim>\<open>ko.computed\<close>. A computed has the members of
  \<^verbatim>\<open>ko.computed.fn\<close> and \<^verbatim>\<open>ko.subscribable.fn\<close>, not the array methods of
  \<^verbatim>\<open>ko.observableArray.fn\<close>: \<^verbatim>\<open>this.selectedItems.remove\<close> is \<^verbatim>\<open>undefined\<close>, and
  calling it throws a TypeError (line 209).
\<close>

definition computed_remove :: "jsval \<Rightarrow> sarray \<Rightarrow> completion \<times> sarray" where
  "computed_remove object this = (Throws TypeError, this)"

text \<open>\<^verbatim>\<open>this.delete\<close>, lines 199 to 217.\<close>

definition this_delete :: "jsval \<Rightarrow> sarray \<Rightarrow> completion \<times> sarray" where
  "this_delete object this =
     (if \<not> has ''delete'' this then (Throws TypeError, this)
      else if has ''selectedItem'' this then
        (let this1 = this\<lparr>items :=
                       remove_ko (if truthy object then object else selected this) (items this)\<rparr>
         in if selected this1 = object then write_selectedItem (Prim PNull) this1
            else (Returns_this, this1))
      else if truthy object then
        (let this1 = this\<lparr>items := remove_ko object (items this)\<rparr>
         in computed_remove object this1)
      else
        (case read_selectedItems this of
           Inl e \<Rightarrow> (Throws e, this)
         | Inr sel \<Rightarrow>
             (let this1 = this\<lparr>items := removeAll_ko sel (items this)\<rparr>
              in write_selectedItems [] this1)))"

text \<open>\<^verbatim>\<open>this.new\<close>, lines 223 to 241. The arguments of the call are not read.\<close>

definition this_new :: "creator option \<Rightarrow> jsval list \<Rightarrow> sarray \<Rightarrow> completion \<times> sarray" where
  "this_new create arguments this =
     (if \<not> has ''new'' this then (Throws TypeError, this)
      else
        (let (created, this1) =
               (case create of
                  Some f \<Rightarrow> (let (d, this0) = alloc \<lparr>mapped = False, props = []\<rparr> this in f d this0)
                | None \<Rightarrow>
                    (let (c, this0) = alloc \<lparr>mapped = False, props = []\<rparr> this
                     in (c, push c this0)))
         in if has ''selectedItem'' this1 then write_selectedItem created this1
            else write_selectedItems [created] this1))"

section \<open>The selectable extension: \<^verbatim>\<open>selectable\<close> itself (lines 74 to 246)\<close>

text \<open>
  The arguments are turned into the keys of \<^verbatim>\<open>options\<close> by \<^verbatim>\<open>ko.utils.arrayForEach\<close>
  over \<^verbatim>\<open>ko.utils.makeArray(arguments)\<close> (line 78). The model is of a Knockout build that
  provides \<^verbatim>\<open>ko.utils.makeArray\<close>, as the debug build does; a build that does not
  export it throws at line 78, before \<^verbatim>\<open>selectable\<close> has defined anything. The
  arguments are strings. With \<^verbatim>\<open>multiple\<close> the
  extension creates the cell \<^verbatim>\<open>selectedItems\<close> (empty) and the computed attributes
  \<^verbatim>\<open>selectedItems\<close> and \<^verbatim>\<open>selectedIndexes\<close>; without it, the cell \<^verbatim>\<open>selected\<close>
  (\<^verbatim>\<open>null\<close>) and the computed attributes \<^verbatim>\<open>selectedItem\<close> and
  \<^verbatim>\<open>selectedIndex\<close>. With \<^verbatim>\<open>bindingTools\<close> it then assigns the three methods. It
  returns \<^verbatim>\<open>this\<close>.
\<close>

definition selectable :: "string list \<Rightarrow> sarray \<Rightarrow> completion \<times> sarray" where
  "selectable arguments this =
     (let options = set arguments;
          this1 =
            (if ''multiple'' \<in> options then
               assign_member ''selected'' (Alias_of ''selectedItems'')
                 (assign_member ''selectedIndexes'' Computed_read_write
                   (assign_member ''selectedItems'' Computed_read_write
                     (this\<lparr>selectedItems := []\<rparr>)))
             else
               assign_member ''selected'' (Alias_of ''selectedItem'')
                 (assign_member ''selectedIndex'' Computed_read_write
                   (assign_member ''selectedItem'' Computed_read_write
                     (this\<lparr>selected := Prim PNull\<rparr>))));
          this2 =
            (if ''bindingTools'' \<in> options then
               assign_member ''new'' Method
                 (assign_member ''delete'' Method
                   (assign_member ''clone'' Method this1))
             else this1)
      in (Returns_this, this2))"

section \<open>Sequences of operations and the selection invariant\<close>

datatype operation =
    Write_selectedItem jsval
  | Write_selectedItems "jsval list"
  | Write_selectedIndex int
  | Write_selectedIndexes "int list"
  | New "jsval list"
  | Clone jsval
  | Delete jsval

fun step :: "creator option \<Rightarrow> operation \<Rightarrow> sarray \<Rightarrow> completion \<times> sarray" where
  "step create (Write_selectedItem v) this = write_selectedItem v this"
| "step create (Write_selectedItems vs) this = write_selectedItems vs this"
| "step create (Write_selectedIndex i) this = write_selectedIndex i this"
| "step create (Write_selectedIndexes is) this = write_selectedIndexes is this"
| "step create (New args) this = this_new create args this"
| "step create (Clone v) this = this_clone create v this"
| "step create (Delete v) this = this_delete v this"

text \<open>A handler that throws ends its own call only: the next operation runs on the
  array as the failed one left it.\<close>

fun run :: "creator option \<Rightarrow> operation list \<Rightarrow> sarray \<Rightarrow> sarray" where
  "run create [] this = this"
| "run create (op1 # ops) this = run create ops (snd (step create op1 this))"

text \<open>
  The selection is a subset of the array: the selected item is \<^verbatim>\<open>null\<close> (nothing
  selected) or an element of the array, and every selected item is an element of the
  array.
\<close>

definition selection_in_array :: "sarray \<Rightarrow> bool" where
  "selection_in_array this =
     ((if has ''selectedItem'' this
       then selected this = Prim PNull \<or> selected this \<in> set (items this) else True)
      \<and> (if has ''selectedItems'' this
         then set (selectedItems this) \<subseteq> set (items this) else True))"

text \<open>The two modes, as the binding tools tell them apart (\<^verbatim>\<open>if (this.selectedItem)\<close>).\<close>

definition single_selection :: "sarray \<Rightarrow> bool" where
  "single_selection this = (has ''selectedItem'' this \<and> has ''selectedIndex'' this)"

definition multiple_selection :: "sarray \<Rightarrow> bool" where
  "multiple_selection this =
     (\<not> has ''selectedItem'' this \<and> has ''selectedItems'' this \<and> has ''selectedIndexes'' this)"

definition binding_tools :: "sarray \<Rightarrow> bool" where
  "binding_tools this = (has ''new'' this \<and> has ''clone'' this \<and> has ''delete'' this)"

text \<open>No item of the array is a dangling address.\<close>

fun allocated :: "jsobj list \<Rightarrow> jsval \<Rightarrow> bool" where
  "allocated h (Prim p) = True"
| "allocated h (Obj r) = (r < length h)"

definition well_formed :: "sarray \<Rightarrow> bool" where
  "well_formed this = list_all (allocated (heap this)) (items this)"

text \<open>
  What an array keeps from one state to a later one when only the heap has changed and
  items have been pushed: its earlier items, its members and both selection cells.
\<close>

definition extends :: "sarray \<Rightarrow> sarray \<Rightarrow> jsval list \<Rightarrow> bool" where
  "extends this this' added =
     (items this' = items this @ added \<and> members this' = members this
      \<and> selected this' = selected this \<and> selectedItems this' = selectedItems this)"

subsection \<open>Concrete arrays\<close>

text \<open>
  Two objects, and the array of both extended for single selection and for multiple
  selection, each with the binding tools; and an array that holds the same string twice.
\<close>

definition demo_heap :: "jsobj list" where
  "demo_heap = [\<lparr>mapped = False, props = [(''name'', PStr ''Ann'')]\<rparr>,
                \<lparr>mapped = False, props = [(''age'', PStr ''7'')]\<rparr>]"

definition demo_single :: sarray where
  "demo_single = snd (selectable [''bindingTools''] (observableArray demo_heap [Obj 0, Obj 1]))"

definition demo_multiple :: sarray where
  "demo_multiple =
     snd (selectable [''multiple'', ''bindingTools''] (observableArray demo_heap [Obj 0, Obj 1]))"

definition demo_duplicates :: sarray where
  "demo_duplicates =
     snd (selectable [''multiple''] (observableArray [] [Prim (PStr ''a''), Prim (PStr ''a'')]))"

section \<open>Facts about the array operations\<close>

lemma arrayIndexOf_ge_minus1: "- 1 \<le> arrayIndexOf xs x"
  by (induction xs) (auto simp: Let_def)

lemma arrayIndexOf_nonneg_iff: "0 \<le> arrayIndexOf xs x \<longleftrightarrow> x \<in> set xs"
  by (induction xs) (auto simp: Let_def)

lemma arrayIndexOf_neg_iff: "arrayIndexOf xs x < 0 \<longleftrightarrow> x \<notin> set xs"
  using arrayIndexOf_nonneg_iff [of xs x] by linarith

lemma arrayIndexOf_minus1_iff: "arrayIndexOf xs x = - 1 \<longleftrightarrow> x \<notin> set xs"
  using arrayIndexOf_neg_iff [of xs x] arrayIndexOf_ge_minus1 [of xs x] by linarith

lemma arrayIndexOf_less_length: "arrayIndexOf xs x < int (length xs)"
  by (induction xs) (auto simp: Let_def)

lemma arrayIndexOf_append_in:
  "x \<in> set xs \<Longrightarrow> arrayIndexOf (xs @ ys) x = arrayIndexOf xs x"
  by (induction xs) (auto simp: Let_def arrayIndexOf_neg_iff)

lemma arrayIndexOf_append_notin:
  "x \<notin> set xs \<Longrightarrow> arrayIndexOf (xs @ x # ys) x = int (length xs)"
  by (induction xs) (auto simp: Let_def)

lemma arrayIndexOf_nth:
  "x \<in> set xs \<Longrightarrow> xs ! nat (arrayIndexOf xs x) = x"
proof (induction xs)
  case Nil
  then show ?case by simp
next
  case (Cons y ys)
  show ?case
  proof (cases "y = x")
    case True
    then show ?thesis by simp
  next
    case False
    with Cons.prems have mem: "x \<in> set ys" by simp
    then have nonneg: "0 \<le> arrayIndexOf ys x" by (simp add: arrayIndexOf_nonneg_iff)
    then have "nat (arrayIndexOf ys x + 1) = Suc (nat (arrayIndexOf ys x))" by simp
    with False nonneg Cons.IH [OF mem] show ?thesis by (simp add: Let_def)
  qed
qed

lemma remove_where_filter: "remove_where p xs = filter (\<lambda>v. \<not> p v) xs"
  by (induction xs) auto

lemma remove_ko_filter: "remove_ko x xs = filter (\<lambda>v. v \<noteq> x) xs"
  by (simp add: remove_ko_def remove_where_filter)

lemma removeAll_ko_filter: "removeAll_ko vs xs = filter (\<lambda>v. v \<notin> set vs) xs"
  by (simp add: removeAll_ko_def remove_where_filter arrayIndexOf_nonneg_iff)

lemma at_index_in_set: "0 \<le> i \<Longrightarrow> i < int (length xs) \<Longrightarrow> at_index xs i \<in> set xs"
  by (simp add: at_index_def)

section \<open>Facts about the state of an extended array\<close>

lemma has_updates [simp]:
  "has n (s\<lparr>heap := h\<rparr>) = has n s"
  "has n (s\<lparr>items := xs\<rparr>) = has n s"
  "has n (s\<lparr>selected := v\<rparr>) = has n s"
  "has n (s\<lparr>selectedItems := vs\<rparr>) = has n s"
  by (simp_all add: has_def)

lemma has_assign_member [simp]:
  "has n (assign_member k m s) = (n = k \<or> has n s)"
  by (auto simp: has_def assign_member_def)

lemma fields_assign_member [simp]:
  "heap (assign_member k m s) = heap s"
  "items (assign_member k m s) = items s"
  "selected (assign_member k m s) = selected s"
  "selectedItems (assign_member k m s) = selectedItems s"
  by (simp_all add: assign_member_def)

lemma map_of_assign_member [simp]:
  "map_of (members (assign_member k m s)) n = (if n = k then Some m else map_of (members s) n)"
  by (simp add: assign_member_def)

lemma observableArray_fields [simp]:
  "heap (observableArray h xs) = h" "items (observableArray h xs) = xs"
  by (simp_all add: observableArray_def)

lemma allocated_fresh: "list_all (allocated h) xs \<Longrightarrow> Obj (length h) \<notin> set xs"
  by (induction xs) auto

lemma deref_last [simp]: "deref (h @ [obj]) (length h) = obj"
  by (simp add: deref_def)

lemma deref_old [simp]: "r < length h \<Longrightarrow> deref (h @ [obj]) r = h ! r"
  by (simp add: deref_def nth_append)

subsection \<open>The concrete arrays\<close>

lemma demo_single_eq:
  "demo_single =
     \<lparr>heap = demo_heap, items = [Obj 0, Obj 1], selected = Prim PNull, selectedItems = [],
      members = [(''new'', Method), (''delete'', Method), (''clone'', Method),
                 (''selected'', Alias_of ''selectedItem''),
                 (''selectedIndex'', Computed_read_write),
                 (''selectedItem'', Computed_read_write)]\<rparr>"
  by (simp add: demo_single_def selectable_def observableArray_def assign_member_def)

lemma demo_multiple_eq:
  "demo_multiple =
     \<lparr>heap = demo_heap, items = [Obj 0, Obj 1], selected = Prim PUndefined, selectedItems = [],
      members = [(''new'', Method), (''delete'', Method), (''clone'', Method),
                 (''selected'', Alias_of ''selectedItems''),
                 (''selectedIndexes'', Computed_read_write),
                 (''selectedItems'', Computed_read_write)]\<rparr>"
  by (simp add: demo_multiple_def selectable_def observableArray_def assign_member_def)

lemma demo_duplicates_eq:
  "demo_duplicates =
     \<lparr>heap = [], items = [Prim (PStr ''a''), Prim (PStr ''a'')], selected = Prim PUndefined,
      selectedItems = [],
      members = [(''selected'', Alias_of ''selectedItems''),
                 (''selectedIndexes'', Computed_read_write),
                 (''selectedItems'', Computed_read_write)]\<rparr>"
  by (simp add: demo_duplicates_def selectable_def observableArray_def assign_member_def)

lemma demo_single_has [simp]:
  "has ''selectedItem'' demo_single" "has ''selectedIndex'' demo_single"
  "\<not> has ''selectedItems'' demo_single" "\<not> has ''selectedIndexes'' demo_single"
  "has ''new'' demo_single" "has ''clone'' demo_single" "has ''delete'' demo_single"
  by (simp_all add: demo_single_eq has_def)

lemma demo_multiple_has [simp]:
  "\<not> has ''selectedItem'' demo_multiple" "\<not> has ''selectedIndex'' demo_multiple"
  "has ''selectedItems'' demo_multiple" "has ''selectedIndexes'' demo_multiple"
  "has ''new'' demo_multiple" "has ''clone'' demo_multiple" "has ''delete'' demo_multiple"
  by (simp_all add: demo_multiple_eq has_def)

lemma demo_duplicates_has [simp]:
  "\<not> has ''selectedItem'' demo_duplicates"
  "has ''selectedItems'' demo_duplicates" "has ''selectedIndexes'' demo_duplicates"
  by (simp_all add: demo_duplicates_eq has_def)

lemma demo_fields [simp]:
  "items demo_single = [Obj 0, Obj 1]" "selected demo_single = Prim PNull"
  "heap demo_single = demo_heap"
  "items demo_multiple = [Obj 0, Obj 1]" "selectedItems demo_multiple = []"
  "heap demo_multiple = demo_heap"
  "items demo_duplicates = [Prim (PStr ''a''), Prim (PStr ''a'')]"
  "selectedItems demo_duplicates = []"
  by (simp_all add: demo_single_eq demo_multiple_eq demo_duplicates_eq)

lemma demo_modes [simp]:
  "binding_tools demo_single" "single_selection demo_single"
  "binding_tools demo_multiple" "multiple_selection demo_multiple"
  "multiple_selection demo_duplicates"
  "well_formed demo_single" "well_formed demo_multiple"
  by (simp_all add: binding_tools_def single_selection_def multiple_selection_def
      well_formed_def demo_heap_def)

subsection \<open>The loop of the write function of \<^verbatim>\<open>selectedItems\<close>\<close>

lemma select_step_set:
  "set (fold (select_step array) ws acc) = set acc \<union> (set ws \<inter> set array)"
  by (induction ws arbitrary: acc)
     (auto simp: select_step_def arrayIndexOf_minus1_iff arrayIndexOf_nonneg_iff)

lemma select_step_distinct:
  "distinct acc \<Longrightarrow> distinct (fold (select_step array) ws acc)"
  by (induction ws arbitrary: acc)
     (auto simp: select_step_def arrayIndexOf_minus1_iff)

text \<open>
  The loop has read \<open>pre\<close> and has \<open>ws\<close> still to read; the items kept so far are those
  of \<open>pre\<close> that the array holds, in the order of their first positions.
\<close>

lemma select_step_order:
  assumes "sorted_wrt (\<lambda>x y. arrayIndexOf (pre @ ws) x < arrayIndexOf (pre @ ws) y) acc"
    and "set acc = set pre \<inter> set array"
  shows "sorted_wrt (\<lambda>x y. arrayIndexOf (pre @ ws) x < arrayIndexOf (pre @ ws) y)
           (fold (select_step array) ws acc)"
  using assms
proof (induction ws arbitrary: pre acc)
  case Nil
  then show ?case by simp
next
  case (Cons w ws)
  let ?R = "\<lambda>x y. arrayIndexOf (pre @ w # ws) x < arrayIndexOf (pre @ w # ws) y"
  show ?case
  proof (cases "w \<notin> set acc \<and> w \<in> set array")
    case True
    then have notpre: "w \<notin> set pre" using Cons.prems(2) by auto
    have "\<forall>x \<in> set acc. ?R x w"
    proof
      fix x assume "x \<in> set acc"
      then have "x \<in> set pre" using Cons.prems(2) by auto
      then have "arrayIndexOf (pre @ w # ws) x = arrayIndexOf pre x"
        by (rule arrayIndexOf_append_in)
      moreover have "arrayIndexOf pre x < int (length pre)" by (rule arrayIndexOf_less_length)
      moreover have "arrayIndexOf (pre @ w # ws) w = int (length pre)"
        using notpre by (rule arrayIndexOf_append_notin)
      ultimately show "?R x w" by simp
    qed
    with Cons.prems(1) have s: "sorted_wrt ?R (acc @ [w])"
      by (simp add: sorted_wrt_append)
    have st: "set (acc @ [w]) = set (pre @ [w]) \<inter> set array"
      using True Cons.prems(2) by auto
    have "sorted_wrt (\<lambda>x y. arrayIndexOf ((pre @ [w]) @ ws) x < arrayIndexOf ((pre @ [w]) @ ws) y)
            (fold (select_step array) ws (acc @ [w]))"
      by (rule Cons.IH) (use s st in simp_all)
    moreover have "select_step array w acc = acc @ [w]"
      using True by (simp add: select_step_def arrayIndexOf_minus1_iff arrayIndexOf_nonneg_iff)
    ultimately show ?thesis by simp
  next
    case False
    have st: "set acc = set (pre @ [w]) \<inter> set array"
      using False Cons.prems(2) by auto
    have "sorted_wrt (\<lambda>x y. arrayIndexOf ((pre @ [w]) @ ws) x < arrayIndexOf ((pre @ [w]) @ ws) y)
            (fold (select_step array) ws acc)"
      by (rule Cons.IH) (use Cons.prems(1) st in simp_all)
    moreover have "select_step array w acc = acc"
      using False by (auto simp add: select_step_def arrayIndexOf_minus1_iff arrayIndexOf_nonneg_iff)
    ultimately show ?thesis by simp
  qed
qed

lemma select_step_all_kept:
  "distinct vs \<Longrightarrow> set vs \<subseteq> set array \<Longrightarrow> set acc \<inter> set vs = {}
   \<Longrightarrow> fold (select_step array) vs acc = acc @ vs"
proof (induction vs arbitrary: acc)
  case Nil
  then show ?case by simp
next
  case (Cons v vs)
  have step: "select_step array v acc = acc @ [v]"
    using Cons.prems by (simp add: select_step_def arrayIndexOf_minus1_iff arrayIndexOf_nonneg_iff)
  have "fold (select_step array) vs (acc @ [v]) = (acc @ [v]) @ vs"
    by (rule Cons.IH) (use Cons.prems in auto)
  with step show ?case by simp
qed

subsection \<open>Cloning\<close>

lemma clone_plain_object:
  assumes "r < length (heap s)" and "\<not> mapped (heap s ! r)"
  shows "clone None (Obj r) s =
           Inr (Obj (length (heap s)),
                s\<lparr>heap := heap s @
                     [\<lparr>mapped = False,
                       props =
                         (if truthy_prim (get_prop s (Obj r) ''name'')
                          then assign_prop ''name''
                                 (PStr (to_string (get_prop s (Obj r) ''name'') @ '' copy''))
                                 (props (heap s ! r))
                          else props (heap s ! r))\<rparr>],
                   items := items s @ [Obj (length (heap s))]\<rparr>)"
  using assms
  by (simp add: clone_def alloc_def push_def deref_def Let_def)

lemma set_prop_fields [simp]:
  "items (set_prop d n v s) = items s"
  "members (set_prop d n v s) = members s"
  "selected (set_prop d n v s) = selected s"
  "selectedItems (set_prop d n v s) = selectedItems s"
  by (cases d; simp)+

lemma toJS_fields:
  "toJS x s = (d, s') \<Longrightarrow> extends s s' []"
  "mapping_toJS x s = (d, s') \<Longrightarrow> extends s s' []"
  "mapping_fromJS x s = (d, s') \<Longrightarrow> extends s s' []"
  by (cases x; auto simp: alloc_def extends_def)+

lemma clone_extends:
  assumes "clone None x s = Inr (c, s')"
  shows "extends s s' [c]"
proof -
  from assms have ok: "x \<noteq> Prim PUndefined" "x \<noteq> Prim PNull"
    by (auto simp: clone_def split: if_splits)
  obtain d s1 where t: "(if has_mapping s x then mapping_toJS x s else toJS x s) = (d, s1)"
    by (cases "if has_mapping s x then mapping_toJS x s else toJS x s") auto
  then have e1: "extends s s1 []"
    by (auto split: if_splits dest: toJS_fields)
  let ?s2 = "(if truthy_prim (get_prop s1 d ''name'')
                then set_prop d ''name''
                       (PStr (to_string (get_prop s1 d ''name'') @ '' copy'')) s1
                else s1)"
  have e2: "extends s ?s2 []"
    using e1 by (simp add: extends_def)
  obtain cr s3 where f: "(if has_mapping s x then mapping_fromJS d ?s2 else (d, ?s2)) = (cr, s3)"
    by (cases "if has_mapping s x then mapping_fromJS d ?s2 else (d, ?s2)") auto
  then have e3: "extends ?s2 s3 []"
    by (auto split: if_splits dest: toJS_fields simp: extends_def)
  from assms ok t have "clone None x s = Inr (cr, push cr s3)"
    unfolding clone_def Let_def by (simp add: f)
  with assms have "c = cr" "s' = push cr s3" by auto
  with e2 e3 show ?thesis
    by (simp add: extends_def push_def)
qed

lemma clone_each_extends:
  "clone_each None xs s = (res, s') \<Longrightarrow>
     \<exists>added. extends s s' added \<and> (\<forall>cs. res = Inr cs \<longrightarrow> added = cs)"
proof (induction xs arbitrary: s res s')
  case Nil
  then show ?case by (auto simp: extends_def)
next
  case (Cons x xs)
  show ?case
  proof (cases "clone None x s")
    case (Inl e)
    with Cons.prems show ?thesis by (auto simp: extends_def)
  next
    case (Inr p)
    obtain c s1 where p: "p = (c, s1)" by (cases p)
    with Inr have e1: "extends s s1 [c]" by (simp add: clone_extends)
    obtain res2 s2 where r: "clone_each None xs s1 = (res2, s2)"
      by (cases "clone_each None xs s1")
    from Cons.IH [OF r] obtain added where
      e2: "extends s1 s2 added" and a: "\<forall>cs. res2 = Inr cs \<longrightarrow> added = cs" by blast
    from e1 e2 have e: "extends s s2 (c # added)" by (simp add: extends_def)
    from Cons.prems Inr p r have "s' = s2"
      and "res = (case res2 of Inl e \<Rightarrow> Inl e | Inr cs \<Rightarrow> Inr (c # cs))"
      by (auto split: sum.splits)
    with e a show ?thesis by (auto split: sum.splits)
  qed
qed

section \<open>Which operations keep the selection inside the array\<close>

text \<open>
  On an array without a \<^verbatim>\<open>create\<close> method, every write of an attribute, \<^verbatim>\<open>new\<close> and
  \<^verbatim>\<open>clone\<close> keep the selection inside the array. \<^verbatim>\<open>delete\<close> is the exception, see C1.
\<close>

lemma write_selectedItem_keeps:
  "selection_in_array s \<Longrightarrow> selection_in_array (snd (write_selectedItem v s))"
  by (auto simp: selection_in_array_def write_selectedItem_def arrayIndexOf_neg_iff)

lemma write_selectedItems_keeps:
  "selection_in_array s \<Longrightarrow> selection_in_array (snd (write_selectedItems vs s))"
  by (auto simp: selection_in_array_def write_selectedItems_def select_step_set)

lemma extends_keeps:
  "extends s s' added \<Longrightarrow> selection_in_array s \<Longrightarrow> selection_in_array s'"
  by (auto simp: selection_in_array_def extends_def has_def)

lemma this_new_keeps:
  assumes inv: "selection_in_array s"
  shows "selection_in_array (snd (this_new None args s))"
proof -
  have "extends s (push (Obj (length (heap s))) (snd (alloc \<lparr>mapped = False, props = []\<rparr> s)))
          [Obj (length (heap s))]"
    by (simp add: extends_def push_def alloc_def)
  then have "selection_in_array
               (push (Obj (length (heap s))) (snd (alloc \<lparr>mapped = False, props = []\<rparr> s)))"
    using inv by (rule extends_keeps)
  then show ?thesis using inv
    by (simp add: this_new_def alloc_def Let_def write_selectedItem_keeps write_selectedItems_keeps)
qed

lemma this_clone_keeps:
  assumes inv: "selection_in_array s"
  shows "selection_in_array (snd (this_clone None v s))"
proof -
  have one: "selection_in_array (snd (case clone None x s of
                 Inl e \<Rightarrow> (Throws e, s)
               | Inr (created, this1) \<Rightarrow> write_selectedItem created this1))" for x
    using inv
    by (auto split: sum.splits dest!: clone_extends intro: write_selectedItem_keeps extends_keeps)
  have two: "selection_in_array (snd (case clone None x s of
                 Inl e \<Rightarrow> (Throws e, s)
               | Inr (created, this1) \<Rightarrow> write_selectedItems [created] this1))" for x
    using inv
    by (auto split: sum.splits dest!: clone_extends intro: write_selectedItems_keeps extends_keeps)
  have three: "selection_in_array (snd (case clone_each None sel s of
                (Inl e, this1) \<Rightarrow> (Throws e, this1)
              | (Inr cs, this1) \<Rightarrow> write_selectedItems cs this1))" for sel
  proof -
    obtain res s1 where r: "clone_each None sel s = (res, s1)" by (cases "clone_each None sel s")
    from clone_each_extends [OF r] obtain added where "extends s s1 added" by blast
    with inv have "selection_in_array s1" by (auto intro: extends_keeps)
    then show ?thesis using r
      by (auto split: sum.splits intro: write_selectedItems_keeps)
  qed
  show ?thesis
    using inv one two three
    by (simp add: this_clone_def read_selectedItems_def)
qed

lemma step_keeps_selection_in_array:
  assumes "selection_in_array s" and "\<forall>v. op1 \<noteq> Delete v"
  shows "selection_in_array (snd (step None op1 s))"
  using assms
  by (cases op1)
     (simp_all add: write_selectedItem_keeps write_selectedItems_keeps this_new_keeps
        this_clone_keeps write_selectedIndex_def write_selectedIndexes_def)

lemma run_keeps_selection_in_array:
  "selection_in_array s \<Longrightarrow> \<forall>op1 \<in> set ops. \<forall>v. op1 \<noteq> Delete v
   \<Longrightarrow> selection_in_array (run None ops s)"
  by (induction ops arbitrary: s) (simp_all add: step_keeps_selection_in_array)

text \<open>The four paths of \<^verbatim>\<open>this.delete\<close>, in every state.\<close>

lemma single_delete_object:
  assumes "has ''delete'' s" and "has ''selectedItem'' s" and "truthy object"
  shows "this_delete object s =
           (Returns_this,
            s\<lparr>items := filter (\<lambda>v. v \<noteq> object) (items s),
              selected := (if selected s = object then Prim PNull else selected s)\<rparr>)"
  using assms
  by (auto simp add: this_delete_def write_selectedItem_def remove_ko_filter Let_def)

lemma single_delete_without_argument:
  assumes "has ''delete'' s" and "has ''selectedItem'' s"
    and "\<not> truthy object" and "selected s \<noteq> object"
  shows "this_delete object s =
           (Returns_this, s\<lparr>items := filter (\<lambda>v. v \<noteq> selected s) (items s)\<rparr>)"
  using assms by (simp add: this_delete_def remove_ko_filter Let_def)

lemma multiple_delete_object:
  assumes "has ''delete'' s" and "multiple_selection s" and "truthy object"
  shows "this_delete object s =
           (Throws TypeError, s\<lparr>items := filter (\<lambda>v. v \<noteq> object) (items s)\<rparr>)"
  using assms
  by (simp add: this_delete_def multiple_selection_def computed_remove_def remove_ko_filter Let_def)

lemma multiple_delete_without_argument:
  assumes "has ''delete'' s" and "multiple_selection s" and "\<not> truthy object"
  shows "this_delete object s =
           (Returns_this,
            s\<lparr>items := filter (\<lambda>v. v \<notin> set (selectedItems s)) (items s), selectedItems := []\<rparr>)"
  using assms
  by (simp add: this_delete_def multiple_selection_def read_selectedItems_def
      write_selectedItems_def removeAll_ko_filter Let_def)

section \<open>What \<^verbatim>\<open>selectable\<close> leaves on the array\<close>

text \<open>
  The members that a call has assigned, and what the attributes and the binding tools do
  on any array that has them.
\<close>

lemma selectable_returns:
  "fst (selectable args a) = Returns_this"
  "items (snd (selectable args a)) = items a"
  "heap (snd (selectable args a)) = heap a"
  by (simp_all add: selectable_def Let_def)

lemma selectable_multiple:
  assumes "''multiple'' \<in> set args"
  shows "has ''selectedItems'' (snd (selectable args a))"
    and "has ''selectedIndexes'' (snd (selectable args a))"
    and "selectedItems (snd (selectable args a)) = []"
    and "map_of (members (snd (selectable args a))) ''selectedItems'' = Some Computed_read_write"
    and "map_of (members (snd (selectable args a))) ''selectedIndexes'' = Some Computed_read_write"
  using assms by (simp_all add: selectable_def Let_def)

lemma selectable_single:
  assumes "''multiple'' \<notin> set args"
  shows "has ''selectedItem'' (snd (selectable args a))"
    and "has ''selectedIndex'' (snd (selectable args a))"
    and "selected (snd (selectable args a)) = Prim PNull"
    and "map_of (members (snd (selectable args a))) ''selectedItem'' = Some Computed_read_write"
    and "map_of (members (snd (selectable args a))) ''selectedIndex'' = Some Computed_read_write"
  using assms by (simp_all add: selectable_def Let_def)

lemma selectable_tools:
  assumes "''bindingTools'' \<in> set args"
  shows "has ''new'' (snd (selectable args a))"
    and "has ''clone'' (snd (selectable args a))"
    and "has ''delete'' (snd (selectable args a))"
    and "map_of (members (snd (selectable args a))) ''new'' = Some Method"
    and "map_of (members (snd (selectable args a))) ''clone'' = Some Method"
    and "map_of (members (snd (selectable args a))) ''delete'' = Some Method"
  using assms by (simp_all add: selectable_def Let_def)

lemma selectable_some_mode:
  "has ''selectedItem'' (snd (selectable args a)) \<or> has ''selectedItems'' (snd (selectable args a))"
  by (simp add: selectable_def Let_def)

lemma selectable_fresh:
  "has n (snd (selectable args (observableArray h xs))) \<longleftrightarrow>
     (if ''multiple'' \<in> set args
      then n = ''selectedItems'' \<or> n = ''selectedIndexes'' \<or> n = ''selected''
      else n = ''selectedItem'' \<or> n = ''selectedIndex'' \<or> n = ''selected'')
     \<or> (''bindingTools'' \<in> set args \<and> (n = ''new'' \<or> n = ''clone'' \<or> n = ''delete''))"
  by (auto simp add: selectable_def Let_def observableArray_def has_def)

lemma single_attributes:
  assumes "has ''selectedItem'' e" and "has ''selectedIndex'' e"
  shows "write_selectedItem v e =
           (Returns_this, e\<lparr>selected := (if v \<in> set (items e) then v else Prim PNull)\<rparr>)"
    and "write_selectedIndex i e =
           (Returns_this,
            e\<lparr>selected := (if at_index (items e) i \<in> set (items e) then at_index (items e) i
                            else Prim PNull)\<rparr>)"
    and "read_selectedItem (e\<lparr>selected := w\<rparr>) = Inr w"
    and "read_selectedIndex (e\<lparr>selected := w\<rparr>) = Inr (arrayIndexOf (items e) w)"
  using assms
  by (simp_all add: write_selectedItem_def write_selectedIndex_def read_selectedItem_def
      read_selectedIndex_def arrayIndexOf_neg_iff)

lemma multiple_attributes:
  assumes "has ''selectedItems'' e" and "has ''selectedIndexes'' e"
  shows "write_selectedItems vs e =
           (Returns_this, e\<lparr>selectedItems := fold (select_step (items e)) vs []\<rparr>)"
    and "write_selectedIndexes is e =
           (Returns_this,
            e\<lparr>selectedItems := fold (select_step (items e)) (map (at_index (items e)) is) []\<rparr>)"
    and "read_selectedItems (e\<lparr>selectedItems := ws\<rparr>) = Inr ws"
    and "read_selectedIndexes (e\<lparr>selectedItems := ws\<rparr>) = Inr (map (arrayIndexOf (items e)) ws)"
  using assms
  by (simp_all add: write_selectedItems_def write_selectedIndexes_def read_selectedItems_def
      read_selectedIndexes_def)

lemma clone_truthy:
  assumes "truthy v"
  shows "\<exists>c s1. clone None v s = Inr (c, s1)"
proof -
  from assms have ok: "v \<noteq> Prim PUndefined" "v \<noteq> Prim PNull" by auto
  then show ?thesis
    by (simp add: clone_def Let_def split: prod.splits)
qed

lemma tools_new:
  assumes "has ''new'' e" and "has ''selectedItem'' e \<or> has ''selectedItems'' e"
  shows "fst (this_new None xs e) = Returns_this"
    and "items (snd (this_new None xs e)) = items e @ [Obj (length (heap e))]"
    and "heap (snd (this_new None xs e)) = heap e @ [\<lparr>mapped = False, props = []\<rparr>]"
  using assms
  by (auto simp add: this_new_def alloc_def push_def write_selectedItem_def
      write_selectedItems_def Let_def)

lemma tools_clone:
  assumes "has ''clone'' e" and "has ''selectedItem'' e \<or> has ''selectedItems'' e"
    and "truthy v"
  shows "fst (this_clone None v e) = Returns_this
         \<and> length (items (snd (this_clone None v e))) = Suc (length (items e))
         \<and> butlast (items (snd (this_clone None v e))) = items e"
proof -
  from clone_truthy [OF assms(3)] obtain c s1 where c: "clone None v e = Inr (c, s1)" by blast
  then have e: "extends e s1 [c]" by (rule clone_extends)
  then have h: "has n s1 = has n e" for n by (simp add: extends_def has_def)
  from e have i: "items s1 = items e @ [c]" by (simp add: extends_def)
  show ?thesis
    using assms c h i
    by (auto simp add: this_clone_def write_selectedItem_def write_selectedItems_def)
qed

lemma tools_delete:
  assumes "has ''delete'' e" and "has ''selectedItem'' e \<or> has ''selectedItems'' e"
  shows "fst (this_delete (Prim PUndefined) e) = Returns_this"
  using assms
  by (auto simp add: this_delete_def write_selectedItem_def write_selectedItems_def
      read_selectedItems_def Let_def)

lemma no_tools:
  assumes "\<not> has ''new'' e" and "\<not> has ''clone'' e" and "\<not> has ''delete'' e"
  shows "this_new None xs e = (Throws TypeError, e)"
    and "this_clone None v e = (Throws TypeError, e)"
    and "this_delete v e = (Throws TypeError, e)"
  using assms by (simp_all add: this_new_def this_clone_def this_delete_def)

section \<open>Claims about the selectable extension\<close>

text \<open>
  C1. The selection of an extended array should be a subset of the array's contents
  after any sequence of the extension's operations. \<^verbatim>\<open>this.delete\<close> does not keep it
  so. In single selection, after selecting the first object, \<^verbatim>\<open>delete()\<close> with no
  argument removes the object from the array and leaves it selected. In multiple
  selection, after selecting the first object, \<^verbatim>\<open>delete(object)\<close> removes the object
  from the array, then throws, and leaves it selected. Before the \<^verbatim>\<open>delete\<close> the
  selection is inside the array in both runs.
\<close>

theorem delete_leaves_selection_outside_array:
  "selection_in_array (run None [Write_selectedItem (Obj 0)] demo_single)
   \<and> \<not> selection_in_array
         (run None [Write_selectedItem (Obj 0), Delete (Prim PUndefined)] demo_single)
   \<and> selection_in_array (run None [Write_selectedItems [Obj 0]] demo_multiple)
   \<and> \<not> selection_in_array
         (run None [Write_selectedItems [Obj 0], Delete (Obj 0)] demo_multiple)"
  by (simp add: selection_in_array_def write_selectedItem_def write_selectedItems_def
      select_step_def this_delete_def computed_remove_def remove_ko_def Let_def)

text \<open>
  C2. In single selection with the binding tools and a selected item, \<^verbatim>\<open>delete()\<close> with
  no argument should remove the selected item and leave \<^verbatim>\<open>selectedItem()\<close> \<^verbatim>\<open>null\<close>.
  On the array of two objects with the first one selected, the call returns with the
  object removed from the array, and \<^verbatim>\<open>selectedItem()\<close> is still that object
  (\<^verbatim>\<open>selectedIndex()\<close> is \<^verbatim>\<open>-1\<close>): line 203 compares the selection with the argument,
  which is \<^verbatim>\<open>undefined\<close>.
\<close>

theorem delete_without_argument_keeps_selectedItem:
  "read_selectedItem (snd (write_selectedItem (Obj 0) demo_single)) = Inr (Obj 0)
   \<and> this_delete (Prim PUndefined) (snd (write_selectedItem (Obj 0) demo_single))
       = (Returns_this, demo_single\<lparr>items := [Obj 1], selected := Obj 0\<rparr>)
   \<and> read_selectedItem
         (snd (this_delete (Prim PUndefined) (snd (write_selectedItem (Obj 0) demo_single))))
       = Inr (Obj 0)
   \<and> read_selectedIndex
         (snd (this_delete (Prim PUndefined) (snd (write_selectedItem (Obj 0) demo_single))))
       = Inr (- 1)"
  by (simp add: write_selectedItem_def read_selectedItem_def read_selectedIndex_def
      this_delete_def remove_ko_def Let_def)

text \<open>
  C3. In multiple selection with the binding tools, \<^verbatim>\<open>delete(object)\<close> should remove
  the object from the array and from the selection. On the array of two objects with the
  first one selected, \<^verbatim>\<open>delete\<close> of the first object removes it from the array and then
  throws a TypeError at line 209; \<^verbatim>\<open>selectedItems()\<close> still holds the object. (With
  no argument the call removes the selected items from the array and empties the
  selection: \<open>multiple_delete_without_argument\<close>.)
\<close>

theorem delete_object_multiple_throws:
  "read_selectedItems (snd (write_selectedItems [Obj 0] demo_multiple)) = Inr [Obj 0]
   \<and> this_delete (Obj 0) (snd (write_selectedItems [Obj 0] demo_multiple))
       = (Throws TypeError, demo_multiple\<lparr>items := [Obj 1], selectedItems := [Obj 0]\<rparr>)
   \<and> read_selectedItems
         (snd (this_delete (Obj 0) (snd (write_selectedItems [Obj 0] demo_multiple))))
       = Inr [Obj 0]"
  by (simp add: write_selectedItems_def read_selectedItems_def select_step_def
      this_delete_def computed_remove_def remove_ko_def Let_def)

text \<open>
  C4. On an array with the binding tools and no \<^verbatim>\<open>create\<close> method, in either mode,
  \<^verbatim>\<open>clone(object)\<close> of a plain (not mapped) object returns after it has allocated a
  copy of the object (the same properties, with \<^verbatim>\<open>' copy'\<close> appended to a truthy
  \<^verbatim>\<open>name\<close>), pushed the copy on the array and selected it: the copy is the selected
  item in single selection and the only selected item in multiple selection. The copy is
  a new object: its address was not allocated before, so no item of a well-formed array
  is the copy.
\<close>

theorem clone_appends_and_selects:
  assumes "binding_tools s" and "single_selection s \<or> multiple_selection s"
    and "r < length (heap s)" and "\<not> mapped (heap s ! r)"
  shows "this_clone None (Obj r) s =
           (Returns_this,
            (if has ''selectedItem'' s
             then s\<lparr>heap := heap s @
                      [\<lparr>mapped = False,
                        props =
                          (if truthy_prim (get_prop s (Obj r) ''name'')
                           then assign_prop ''name''
                                  (PStr (to_string (get_prop s (Obj r) ''name'') @ '' copy''))
                                  (props (heap s ! r))
                           else props (heap s ! r))\<rparr>],
                    items := items s @ [Obj (length (heap s))],
                    selected := Obj (length (heap s))\<rparr>
             else s\<lparr>heap := heap s @
                      [\<lparr>mapped = False,
                        props =
                          (if truthy_prim (get_prop s (Obj r) ''name'')
                           then assign_prop ''name''
                                  (PStr (to_string (get_prop s (Obj r) ''name'') @ '' copy''))
                                  (props (heap s ! r))
                           else props (heap s ! r))\<rparr>],
                    items := items s @ [Obj (length (heap s))],
                    selectedItems := [Obj (length (heap s))]\<rparr>))
         \<and> (well_formed s \<longrightarrow> Obj (length (heap s)) \<notin> set (items s))"
proof -
  have tool: "has ''clone'' s" using assms(1) by (simp add: binding_tools_def)
  have fresh: "well_formed s \<longrightarrow> Obj (length (heap s)) \<notin> set (items s)"
    by (simp add: well_formed_def allocated_fresh)
  note c = clone_plain_object [OF assms(3) assms(4)]
  show ?thesis
  proof (cases "has ''selectedItem'' s")
    case True
    have "\<not> arrayIndexOf (items s @ [Obj (length (heap s))]) (Obj (length (heap s))) < 0"
      by (simp add: arrayIndexOf_neg_iff)
    then show ?thesis using tool True fresh
      by (simp add: this_clone_def c write_selectedItem_def)
  next
    case False
    then have multi: "has ''selectedItems'' s"
      using assms(2) by (simp add: single_selection_def multiple_selection_def)
    have "0 \<le> arrayIndexOf (items s @ [Obj (length (heap s))]) (Obj (length (heap s)))"
      by (simp add: arrayIndexOf_nonneg_iff)
    then show ?thesis using tool False multi fresh
      by (simp add: this_clone_def c write_selectedItems_def select_step_def)
  qed
qed

theorem clone_appends_and_selects_witness:
  "this_clone None (Obj 0) demo_single =
     (Returns_this,
      demo_single\<lparr>heap := demo_heap @ [\<lparr>mapped = False, props = [(''name'', PStr ''Ann copy'')]\<rparr>],
                  items := [Obj 0, Obj 1, Obj 2], selected := Obj 2\<rparr>)
   \<and> this_clone None (Obj 1) demo_multiple =
     (Returns_this,
      demo_multiple\<lparr>heap := demo_heap @ [\<lparr>mapped = False, props = [(''age'', PStr ''7'')]\<rparr>],
                    items := [Obj 0, Obj 1, Obj 2], selectedItems := [Obj 2]\<rparr>)
   \<and> Obj 2 \<notin> set (items demo_single)"
proof -
  have h0: "0 < length (heap demo_single)" "\<not> mapped (heap demo_single ! 0)"
    by (simp_all add: demo_heap_def)
  have h1: "1 < length (heap demo_multiple)" "\<not> mapped (heap demo_multiple ! 1)"
    by (simp_all add: demo_heap_def)
  have m0: "single_selection demo_single \<or> multiple_selection demo_single" by simp
  have m1: "single_selection demo_multiple \<or> multiple_selection demo_multiple" by simp
  from clone_appends_and_selects [OF demo_modes(1) m0 h0]
       clone_appends_and_selects [OF demo_modes(3) m1 h1]
  show ?thesis
    by (simp add: demo_heap_def deref_def)
qed

text \<open>
  C5. On an array with the binding tools and no \<^verbatim>\<open>create\<close> method, in either mode,
  \<^verbatim>\<open>new\<close> returns, whatever its arguments, after it has allocated one empty object,
  pushed it on the array behind the earlier items, which it leaves as they were, and
  selected exactly it: the object is the selected item in single selection and the only
  selected item in multiple selection. The object is new: its address was not allocated
  before, so no item of a well-formed array is the object.
\<close>

theorem new_appends_and_selects:
  assumes "binding_tools s" and "single_selection s \<or> multiple_selection s"
  shows "this_new None args s =
           (Returns_this,
            (if has ''selectedItem'' s
             then s\<lparr>heap := heap s @ [\<lparr>mapped = False, props = []\<rparr>],
                    items := items s @ [Obj (length (heap s))],
                    selected := Obj (length (heap s))\<rparr>
             else s\<lparr>heap := heap s @ [\<lparr>mapped = False, props = []\<rparr>],
                    items := items s @ [Obj (length (heap s))],
                    selectedItems := [Obj (length (heap s))]\<rparr>))
         \<and> (well_formed s \<longrightarrow> Obj (length (heap s)) \<notin> set (items s))"
proof -
  have new: "has ''new'' s" using assms(1) by (simp add: binding_tools_def)
  have fresh: "well_formed s \<longrightarrow> Obj (length (heap s)) \<notin> set (items s)"
    by (simp add: well_formed_def allocated_fresh)
  show ?thesis
  proof (cases "has ''selectedItem'' s")
    case True
    have "\<not> arrayIndexOf (items s @ [Obj (length (heap s))]) (Obj (length (heap s))) < 0"
      by (simp add: arrayIndexOf_neg_iff)
    then show ?thesis using new True fresh
      by (simp add: this_new_def alloc_def push_def write_selectedItem_def Let_def)
  next
    case False
    then have multi: "has ''selectedItems'' s"
      using assms(2) by (simp add: single_selection_def multiple_selection_def)
    have "0 \<le> arrayIndexOf (items s @ [Obj (length (heap s))]) (Obj (length (heap s)))"
      by (simp add: arrayIndexOf_nonneg_iff)
    then show ?thesis using new False multi fresh
      by (simp add: this_new_def alloc_def push_def write_selectedItems_def select_step_def Let_def)
  qed
qed

theorem new_appends_and_selects_witness:
  "this_new None [Obj 1, Prim (PStr ''click'')] demo_single =
     (Returns_this,
      demo_single\<lparr>heap := demo_heap @ [\<lparr>mapped = False, props = []\<rparr>],
                  items := [Obj 0, Obj 1, Obj 2], selected := Obj 2\<rparr>)
   \<and> this_new None [] demo_multiple =
     (Returns_this,
      demo_multiple\<lparr>heap := demo_heap @ [\<lparr>mapped = False, props = []\<rparr>],
                    items := [Obj 0, Obj 1, Obj 2], selectedItems := [Obj 2]\<rparr>)
   \<and> Obj 2 \<notin> set (items demo_multiple)"
proof -
  have m0: "single_selection demo_single \<or> multiple_selection demo_single" by simp
  have m1: "single_selection demo_multiple \<or> multiple_selection demo_multiple" by simp
  from new_appends_and_selects [OF demo_modes(1) m0, of "[Obj 1, Prim (PStr ''click'')]"]
       new_appends_and_selects [OF demo_modes(3) m1, of "[]"]
  show ?thesis
    by (simp add: demo_heap_def)
qed

text \<open>
  C6. On a Knockout build that provides \<^verbatim>\<open>ko.utils.makeArray\<close>, \<^verbatim>\<open>selectable\<close>
  returns \<^verbatim>\<open>this\<close>, with the underlying array and the heap as they were.

  Called with \<^verbatim>\<open>'multiple'\<close> it has defined \<^verbatim>\<open>selectedItems\<close> and
  \<^verbatim>\<open>selectedIndexes\<close>. Both read as \<^verbatim>\<open>[]\<close> at first. A write to either returns, and
  afterwards \<^verbatim>\<open>selectedItems()\<close> is the selection that the write function builds from
  the written items (from the elements at the written indexes), and
  \<^verbatim>\<open>selectedIndexes()\<close> is the list of \<^verbatim>\<open>indexOf\<close> of that selection: a write to one
  attribute is read back through both. On an array that had no members before,
  \<^verbatim>\<open>selectedItem\<close> and \<^verbatim>\<open>selectedIndex\<close> are not defined.

  Called without \<^verbatim>\<open>'multiple'\<close> it has defined \<^verbatim>\<open>selectedItem\<close> and
  \<^verbatim>\<open>selectedIndex\<close>. They read as \<^verbatim>\<open>null\<close> and \<^verbatim>\<open>indexOf(null)\<close> at first. A
  write to either returns, and afterwards \<^verbatim>\<open>selectedItem()\<close> is the written item (the
  element at the written index) when the array holds it and \<^verbatim>\<open>null\<close> otherwise, and
  \<^verbatim>\<open>selectedIndex()\<close> is \<^verbatim>\<open>indexOf\<close> of that. On an array that had no members
  before, \<^verbatim>\<open>selectedItems\<close> and \<^verbatim>\<open>selectedIndexes\<close> are not defined.

  Called with \<^verbatim>\<open>'bindingTools'\<close> it has also defined the methods \<^verbatim>\<open>new\<close>,
  \<^verbatim>\<open>clone\<close> and \<^verbatim>\<open>delete\<close>, and they can be called: \<^verbatim>\<open>new\<close> returns with one
  new object pushed, \<^verbatim>\<open>delete()\<close> returns, and \<^verbatim>\<open>clone\<close> of a truthy value returns
  with one item pushed. Called without it on an array that had no members before, a
  call of any of the three throws a TypeError and changes nothing.
\<close>

theorem selectable_defines_members:
  "(let e = snd (selectable args a); f = snd (selectable args (observableArray h ys)) in
     fst (selectable args a) = Returns_this
     \<and> items e = items a
     \<and> heap e = heap a
     \<and> (if ''multiple'' \<in> set args
        then map_of (members e) ''selectedItems'' = Some Computed_read_write
           \<and> map_of (members e) ''selectedIndexes'' = Some Computed_read_write
           \<and> read_selectedItems e = Inr []
           \<and> read_selectedIndexes e = Inr []
           \<and> fst (write_selectedItems vs e) = Returns_this
           \<and> read_selectedItems (snd (write_selectedItems vs e))
               = Inr (fold (select_step (items a)) vs [])
           \<and> read_selectedIndexes (snd (write_selectedItems vs e))
               = Inr (map (arrayIndexOf (items a)) (fold (select_step (items a)) vs []))
           \<and> fst (write_selectedIndexes ixs e) = Returns_this
           \<and> read_selectedItems (snd (write_selectedIndexes ixs e))
               = Inr (fold (select_step (items a)) (map (at_index (items a)) ixs) [])
           \<and> read_selectedIndexes (snd (write_selectedIndexes ixs e))
               = Inr (map (arrayIndexOf (items a))
                       (fold (select_step (items a)) (map (at_index (items a)) ixs) []))
           \<and> read_selectedItem f = Inl TypeError
           \<and> read_selectedIndex f = Inl TypeError
        else map_of (members e) ''selectedItem'' = Some Computed_read_write
           \<and> map_of (members e) ''selectedIndex'' = Some Computed_read_write
           \<and> read_selectedItem e = Inr (Prim PNull)
           \<and> read_selectedIndex e = Inr (arrayIndexOf (items a) (Prim PNull))
           \<and> fst (write_selectedItem v e) = Returns_this
           \<and> read_selectedItem (snd (write_selectedItem v e))
               = Inr (if v \<in> set (items a) then v else Prim PNull)
           \<and> read_selectedIndex (snd (write_selectedItem v e))
               = Inr (arrayIndexOf (items a) (if v \<in> set (items a) then v else Prim PNull))
           \<and> fst (write_selectedIndex i e) = Returns_this
           \<and> read_selectedItem (snd (write_selectedIndex i e))
               = Inr (if at_index (items a) i \<in> set (items a) then at_index (items a) i
                      else Prim PNull)
           \<and> read_selectedIndex (snd (write_selectedIndex i e))
               = Inr (arrayIndexOf (items a)
                       (if at_index (items a) i \<in> set (items a) then at_index (items a) i
                        else Prim PNull))
           \<and> read_selectedItems f = Inl TypeError
           \<and> read_selectedIndexes f = Inl TypeError)
     \<and> (if ''bindingTools'' \<in> set args
        then map_of (members e) ''new'' = Some Method
           \<and> map_of (members e) ''clone'' = Some Method
           \<and> map_of (members e) ''delete'' = Some Method
           \<and> fst (this_new None xs e) = Returns_this
           \<and> items (snd (this_new None xs e)) = items a @ [Obj (length (heap a))]
           \<and> fst (this_delete (Prim PUndefined) e) = Returns_this
           \<and> (if truthy v then fst (this_clone None v e) = Returns_this
                              \<and> butlast (items (snd (this_clone None v e))) = items a
               else True)
        else this_new None xs f = (Throws TypeError, f)
           \<and> this_clone None v f = (Throws TypeError, f)
           \<and> this_delete v f = (Throws TypeError, f)))"
proof -
  let ?e = "snd (selectable args a)"
  let ?f = "snd (selectable args (observableArray h ys))"
  note r = selectable_returns [of args a]
  note mode = selectable_some_mode [of args a]
  have attrs_multiple:
    "read_selectedItems ?e = Inr []
     \<and> read_selectedIndexes ?e = Inr []
     \<and> fst (write_selectedItems vs ?e) = Returns_this
     \<and> read_selectedItems (snd (write_selectedItems vs ?e))
         = Inr (fold (select_step (items a)) vs [])
     \<and> read_selectedIndexes (snd (write_selectedItems vs ?e))
         = Inr (map (arrayIndexOf (items a)) (fold (select_step (items a)) vs []))
     \<and> fst (write_selectedIndexes ixs ?e) = Returns_this
     \<and> read_selectedItems (snd (write_selectedIndexes ixs ?e))
         = Inr (fold (select_step (items a)) (map (at_index (items a)) ixs) [])
     \<and> read_selectedIndexes (snd (write_selectedIndexes ixs ?e))
         = Inr (map (arrayIndexOf (items a))
                 (fold (select_step (items a)) (map (at_index (items a)) ixs) []))
     \<and> read_selectedItem ?f = Inl TypeError
     \<and> read_selectedIndex ?f = Inl TypeError"
    if m: "''multiple'' \<in> set args"
  proof -
    note s = selectable_multiple [OF m, of a]
    note w = multiple_attributes [OF s(1) s(2)]
    have "read_selectedItems ?e = Inr []" "read_selectedIndexes ?e = Inr []"
      using s by (simp_all add: read_selectedItems_def read_selectedIndexes_def)
    moreover have "read_selectedItem ?f = Inl TypeError" "read_selectedIndex ?f = Inl TypeError"
      using m by (simp_all add: read_selectedItem_def read_selectedIndex_def selectable_fresh)
    ultimately show ?thesis
      by (simp add: w r)
  qed
  have attrs_single:
    "read_selectedItem ?e = Inr (Prim PNull)
     \<and> read_selectedIndex ?e = Inr (arrayIndexOf (items a) (Prim PNull))
     \<and> fst (write_selectedItem v ?e) = Returns_this
     \<and> read_selectedItem (snd (write_selectedItem v ?e))
         = Inr (if v \<in> set (items a) then v else Prim PNull)
     \<and> read_selectedIndex (snd (write_selectedItem v ?e))
         = Inr (arrayIndexOf (items a) (if v \<in> set (items a) then v else Prim PNull))
     \<and> fst (write_selectedIndex i ?e) = Returns_this
     \<and> read_selectedItem (snd (write_selectedIndex i ?e))
         = Inr (if at_index (items a) i \<in> set (items a) then at_index (items a) i
                else Prim PNull)
     \<and> read_selectedIndex (snd (write_selectedIndex i ?e))
         = Inr (arrayIndexOf (items a)
                 (if at_index (items a) i \<in> set (items a) then at_index (items a) i
                  else Prim PNull))
     \<and> read_selectedItems ?f = Inl TypeError
     \<and> read_selectedIndexes ?f = Inl TypeError"
    if m: "''multiple'' \<notin> set args"
  proof -
    note s = selectable_single [OF m, of a]
    note w = single_attributes [OF s(1) s(2)]
    have "read_selectedItem ?e = Inr (Prim PNull)"
      "read_selectedIndex ?e = Inr (arrayIndexOf (items a) (Prim PNull))"
      using s r by (simp_all add: read_selectedItem_def read_selectedIndex_def)
    moreover have "read_selectedItems ?f = Inl TypeError" "read_selectedIndexes ?f = Inl TypeError"
      using m by (simp_all add: read_selectedItems_def read_selectedIndexes_def selectable_fresh)
    ultimately show ?thesis
      by (simp add: w r)
  qed
  have tools:
    "fst (this_new None xs ?e) = Returns_this
     \<and> items (snd (this_new None xs ?e)) = items a @ [Obj (length (heap a))]
     \<and> fst (this_delete (Prim PUndefined) ?e) = Returns_this
     \<and> (if truthy v then fst (this_clone None v ?e) = Returns_this
                        \<and> butlast (items (snd (this_clone None v ?e))) = items a
         else True)"
    if b: "''bindingTools'' \<in> set args"
  proof -
    note s = selectable_tools [OF b, of a]
    show ?thesis
      using tools_new [OF s(1) mode, of xs] tools_delete [OF s(3) mode]
        tools_clone [OF s(2) mode, of v]
      by (simp add: r)
  qed
  have without:
    "this_new None xs ?f = (Throws TypeError, ?f)
     \<and> this_clone None v ?f = (Throws TypeError, ?f)
     \<and> this_delete v ?f = (Throws TypeError, ?f)"
    if b: "''bindingTools'' \<notin> set args"
    using b by (simp add: no_tools selectable_fresh)
  show ?thesis
    unfolding Let_def
    using r attrs_multiple attrs_single tools without
      selectable_multiple(4,5) [of args a] selectable_single(4,5) [of args a]
      selectable_tools(4,5,6) [of args a]
    by simp
qed

theorem selectable_defines_members_witness:
  "fst (selectable [''multiple'', ''bindingTools''] (observableArray demo_heap [Obj 0, Obj 1]))
     = Returns_this
   \<and> map_of (members demo_multiple) ''selectedIndexes'' = Some Computed_read_write
   \<and> read_selectedItems (snd (write_selectedItems [Obj 1, Obj 1, Obj 7] demo_multiple))
       = Inr [Obj 1]
   \<and> read_selectedIndexes (snd (write_selectedItems [Obj 1, Obj 1, Obj 7] demo_multiple))
       = Inr [1]
   \<and> read_selectedItems (snd (write_selectedIndexes [1, 0] demo_multiple))
       = Inr [Obj 1, Obj 0]
   \<and> read_selectedIndexes (snd (write_selectedIndexes [1, 0] demo_multiple)) = Inr [1, 0]
   \<and> read_selectedItem demo_multiple = Inl TypeError
   \<and> map_of (members demo_single) ''selectedItem'' = Some Computed_read_write
   \<and> read_selectedItem (snd (write_selectedItem (Obj 1) demo_single)) = Inr (Obj 1)
   \<and> read_selectedIndex (snd (write_selectedItem (Obj 1) demo_single)) = Inr 1
   \<and> read_selectedItem (snd (write_selectedItem (Obj 7) demo_single)) = Inr (Prim PNull)
   \<and> read_selectedItem (snd (write_selectedIndex 0 demo_single)) = Inr (Obj 0)
   \<and> read_selectedIndex (snd (write_selectedIndex 0 demo_single)) = Inr 0
   \<and> read_selectedIndex (snd (write_selectedIndex 5 demo_single)) = Inr (- 1)
   \<and> read_selectedItems demo_single = Inl TypeError
   \<and> items (snd (this_new None [] demo_single)) = [Obj 0, Obj 1, Obj 2]
   \<and> butlast (items (snd (this_clone None (Obj 0) demo_single))) = [Obj 0, Obj 1]
   \<and> this_new None [] demo_duplicates = (Throws TypeError, demo_duplicates)"
proof -
  note m = selectable_defines_members
      [where args = "[''multiple'', ''bindingTools'']"
         and a = "observableArray demo_heap [Obj 0, Obj 1]"
         and h = demo_heap and ys = "[Obj 0, Obj 1]"
         and vs = "[Obj 1, Obj 1, Obj 7]" and ixs = "[1, 0]" and v = "Obj 0" and xs = "[]",
       unfolded Let_def, folded demo_multiple_def]
  note s = selectable_defines_members
      [where args = "[''bindingTools'']"
         and a = "observableArray demo_heap [Obj 0, Obj 1]"
         and h = demo_heap and ys = "[Obj 0, Obj 1]" and xs = "[]",
       unfolded Let_def, folded demo_single_def]
  note d = selectable_defines_members
      [where args = "[''multiple'']"
         and a = "observableArray [] [Prim (PStr ''a''), Prim (PStr ''a'')]"
         and h = "[]" and ys = "[Prim (PStr ''a''), Prim (PStr ''a'')]" and xs = "[]"
         and v = "Obj 0",
       unfolded Let_def, folded demo_duplicates_def]
  from m s [where v = "Obj 1" and i = 0] s [where v = "Obj 7" and i = 5]
       s [where v = "Obj 0" and i = 0] d
  show ?thesis
    by (simp add: select_step_def at_index_def demo_heap_def)
qed

section \<open>Claims about BetterListModel: removeSelected\<close>

text \<open>
  C7. In every state of the view-model, \<^verbatim>\<open>removeSelected\<close> removes every item of
  \<^verbatim>\<open>selectedItems\<close> from \<^verbatim>\<open>allItems\<close> (keeping the other items in order) and then
  sets \<^verbatim>\<open>selectedItems\<close> to the empty list, so that the removed items are in neither
  array afterwards.
\<close>

theorem removeSelected_removes_and_clears:
  "allItems (removeSelected m) = filter (\<lambda>x. x \<notin> set (selectedItems_blm m)) (allItems m)
   \<and> selectedItems_blm (removeSelected m) = []
   \<and> itemToAdd (removeSelected m) = itemToAdd m
   \<and> (\<forall>x \<in> set (selectedItems_blm m).
         x \<notin> set (allItems (removeSelected m)) \<and> x \<notin> set (selectedItems_blm (removeSelected m)))"
  by (simp add: removeSelected_def removeAll_ko_filter)

theorem removeSelected_removes_and_clears_witness:
  "allItems (removeSelected BetterListModel_init) = [''Fries'', ''Eggs Benedict'', ''Cheese'']
   \<and> selectedItems_blm (removeSelected BetterListModel_init) = []
   \<and> ''Ham'' \<notin> set (allItems (removeSelected BetterListModel_init))"
  using removeSelected_removes_and_clears [of BetterListModel_init]
  by (simp add: BetterListModel_init_def)

section \<open>Claims about the selectable extension, continued\<close>

text \<open>
  C8. In multiple selection, a write of any list to \<^verbatim>\<open>selectedItems\<close> returns (it
  never throws) and leaves the array as it was. The selection it leaves is read back by
  \<^verbatim>\<open>selectedItems()\<close>; its items are exactly the written items that the array holds,
  each once, in the order of their first positions in the written list.
\<close>

theorem write_selectedItems_keeps_present_once_in_order:
  assumes "multiple_selection s"
  shows "fst (write_selectedItems ws s) = Returns_this
         \<and> items (snd (write_selectedItems ws s)) = items s
         \<and> read_selectedItems (snd (write_selectedItems ws s))
             = Inr (selectedItems (snd (write_selectedItems ws s)))
         \<and> set (selectedItems (snd (write_selectedItems ws s))) = set ws \<inter> set (items s)
         \<and> distinct (selectedItems (snd (write_selectedItems ws s)))
         \<and> sorted_wrt (\<lambda>x y. arrayIndexOf ws x < arrayIndexOf ws y)
              (selectedItems (snd (write_selectedItems ws s)))"
proof -
  have m: "has ''selectedItems'' s"
    using assms by (simp add: multiple_selection_def)
  have "sorted_wrt (\<lambda>x y. arrayIndexOf ([] @ ws) x < arrayIndexOf ([] @ ws) y)
          (fold (select_step (items s)) ws [])"
    by (rule select_step_order) simp_all
  then show ?thesis using m
    by (simp add: write_selectedItems_def read_selectedItems_def select_step_set
        select_step_distinct)
qed

theorem write_selectedItems_keeps_present_once_in_order_witness:
  "multiple_selection demo_multiple
   \<and> write_selectedItems [Obj 1, Obj 5, Obj 1, Prim PNull, Obj 0, Obj 1] demo_multiple
       = (Returns_this, demo_multiple\<lparr>selectedItems := [Obj 1, Obj 0]\<rparr>)
   \<and> set [Obj 1, Obj 0] = set [Obj 1, Obj 5, Obj 1, Prim PNull, Obj 0, Obj 1] \<inter> set [Obj 0, Obj 1]"
  using write_selectedItems_keeps_present_once_in_order
          [OF demo_modes(4), of "[Obj 1, Obj 5, Obj 1, Prim PNull, Obj 0, Obj 1]"]
  by (simp add: write_selectedItems_def select_step_def)

text \<open>
  C9. In multiple selection, \<^verbatim>\<open>selectedIndexes()\<close> is the list of
  \<^verbatim>\<open>indexOf\<close> of each selected item, in selection order; for a selected item that the
  array holds this is a position of the array at which the item stands. A write to
  \<^verbatim>\<open>selectedIndexes\<close> of in-range indexes of pairwise distinct elements, each index
  being the first position of its element in the array, is read back as the same list.
  Without the last condition it need not be: on an array that holds the same string
  twice, the write of the second position is read back as the first position.
\<close>

theorem selectedIndexes_read_and_round_trip:
  assumes "multiple_selection s"
  shows "read_selectedIndexes s = Inr (map (arrayIndexOf (items s)) (selectedItems s))
         \<and> (\<forall>x \<in> set (selectedItems s) \<inter> set (items s).
               0 \<le> arrayIndexOf (items s) x
               \<and> at_index (items s) (arrayIndexOf (items s) x) = x)
         \<and> ((\<forall>i \<in> set is. 0 \<le> i \<and> i < int (length (items s))
                            \<and> arrayIndexOf (items s) (at_index (items s) i) = i)
             \<and> distinct (map (at_index (items s)) is)
             \<longrightarrow> read_selectedIndexes (snd (write_selectedIndexes is s)) = Inr is)"
proof -
  have m: "has ''selectedItems'' s" "has ''selectedIndexes'' s"
    using assms by (simp_all add: multiple_selection_def)
  have rd: "read_selectedIndexes s = Inr (map (arrayIndexOf (items s)) (selectedItems s))"
    using m by (simp add: read_selectedIndexes_def read_selectedItems_def)
  have idx: "\<forall>x \<in> set (selectedItems s) \<inter> set (items s).
               0 \<le> arrayIndexOf (items s) x
               \<and> at_index (items s) (arrayIndexOf (items s) x) = x"
    by (simp add: at_index_def arrayIndexOf_nonneg_iff arrayIndexOf_less_length arrayIndexOf_nth)
  have rt: "read_selectedIndexes (snd (write_selectedIndexes is s)) = Inr is"
    if inr: "\<forall>i \<in> set is. 0 \<le> i \<and> i < int (length (items s))
                            \<and> arrayIndexOf (items s) (at_index (items s) i) = i"
      and dist: "distinct (map (at_index (items s)) is)"
  proof -
    have sub: "set (map (at_index (items s)) is) \<subseteq> set (items s)"
      using inr by (auto simp: at_index_in_set)
    have "fold (select_step (items s)) (map (at_index (items s)) is) []
            = [] @ map (at_index (items s)) is"
      by (rule select_step_all_kept) (use dist sub in simp_all)
    moreover have "map (arrayIndexOf (items s)) (map (at_index (items s)) is) = is"
      using inr by (simp add: map_idI)
    ultimately show ?thesis using m
      by (simp add: write_selectedIndexes_def write_selectedItems_def
          read_selectedIndexes_def read_selectedItems_def)
  qed
  from rd idx rt show ?thesis by blast
qed

theorem selectedIndexes_read_and_round_trip_witness:
  "multiple_selection demo_multiple
   \<and> arrayIndexOf (items demo_multiple) (at_index (items demo_multiple) 1) = 1
   \<and> arrayIndexOf (items demo_multiple) (at_index (items demo_multiple) 0) = 0
   \<and> distinct (map (at_index (items demo_multiple)) [1, 0])
   \<and> read_selectedIndexes (snd (write_selectedIndexes [1, 0] demo_multiple)) = Inr [1, 0]
   \<and> read_selectedIndexes demo_multiple = Inr []"
  using selectedIndexes_read_and_round_trip [OF demo_modes(4), of "[1, 0]"]
  by (simp add: at_index_def)

theorem selectedIndexes_round_trip_counterexample:
  "multiple_selection demo_duplicates
   \<and> (0::int) \<le> 1 \<and> (1::int) < int (length (items demo_duplicates))
   \<and> distinct (map (at_index (items demo_duplicates)) [1])
   \<and> read_selectedIndexes (snd (write_selectedIndexes [1] demo_duplicates)) = Inr [0]
   \<and> read_selectedIndexes (snd (write_selectedIndexes [1] demo_duplicates)) \<noteq> Inr [1]"
  by (simp add: write_selectedIndexes_def write_selectedItems_def read_selectedIndexes_def
      read_selectedItems_def select_step_def at_index_def)

section \<open>Claims about BetterListModel: addItem\<close>

text \<open>
  C10. In every state of the view-model, \<^verbatim>\<open>addItem\<close> pushes at most the text of
  \<^verbatim>\<open>itemToAdd\<close>, and only when it is not the empty string and not already in
  \<^verbatim>\<open>allItems\<close>; so a duplicate-free \<^verbatim>\<open>allItems\<close> stays duplicate-free. Whether or
  not an item was added, \<^verbatim>\<open>itemToAdd\<close> is the empty string afterwards.
\<close>

theorem addItem_no_blank_no_duplicate:
  "itemToAdd (addItem m) = ''''
   \<and> selectedItems_blm (addItem m) = selectedItems_blm m
   \<and> allItems (addItem m) =
       (if itemToAdd m \<noteq> '''' \<and> itemToAdd m \<notin> set (allItems m)
        then allItems m @ [itemToAdd m] else allItems m)
   \<and> (distinct (allItems m) \<longrightarrow> distinct (allItems (addItem m)))"
  by (simp add: addItem_def Let_def arrayIndexOf_neg_iff)

theorem addItem_no_blank_no_duplicate_witness:
  "allItems (addItem (BetterListModel_init\<lparr>itemToAdd := ''Jam''\<rparr>))
     = [''Fries'', ''Eggs Benedict'', ''Ham'', ''Cheese'', ''Jam'']
   \<and> allItems (addItem (BetterListModel_init\<lparr>itemToAdd := ''Ham''\<rparr>))
     = [''Fries'', ''Eggs Benedict'', ''Ham'', ''Cheese'']
   \<and> itemToAdd (addItem (BetterListModel_init\<lparr>itemToAdd := ''Jam''\<rparr>)) = ''''
   \<and> distinct (allItems (addItem (BetterListModel_init\<lparr>itemToAdd := ''Jam''\<rparr>)))"
  using addItem_no_blank_no_duplicate [of "BetterListModel_init\<lparr>itemToAdd := ''Jam''\<rparr>"]
        addItem_no_blank_no_duplicate [of "BetterListModel_init\<lparr>itemToAdd := ''Ham''\<rparr>"]
  by (simp add: BetterListModel_init_def)

end
